theory Spec2Isabelle
  imports Complex_Main "HOL-Library.Signed_Division"
begin

section \<open>The character demo of \<^verbatim>\<open>src/main.cpp\<close>\<close>

text \<open>
  The program is one C++ file: three helper functions (\<^verbatim>\<open>turnToAngle\<close>,
  \<^verbatim>\<open>normalizeAngle\<close>, \<^verbatim>\<open>updateRotation\<close>) and the frame loop of \<^verbatim>\<open>main\<close>.

  Numbers. The program computes in C++ \<^verbatim>\<open>float\<close>, IEEE single precision. \<open>f32\<close> below
  rounds a real to the nearest single-precision value, and a float is a real \<open>a\<close> with
  \<open>f32 a = a\<close>. The functions whose claims turn on the rounding are given with every
  operation rounded, under the source's name with the suffix \<open>_f32\<close>:
  \<open>normalizeAngle_f32\<close>, \<open>updateRotation_f32\<close> and \<open>jumpDecay_f32\<close>. A call that does not
  return has the value \<open>None\<close>.
  The frame loop and the functions without the suffix take a float as a \<^typ>\<open>real\<close> and
  their sums and products as exact, with \<^verbatim>\<open>0.01f\<close> read as \<open>0.01\<close>; there a literal that
  is not a float itself is rounded only where its value decides a comparison or an angle
  (\<^verbatim>\<open>PI\<close>, the \<^verbatim>\<open>0.01f\<close> of the settling test), and so are the two operations that compute
  an angle in radians. The statements proved in this exact reading are ones that rounding
  does not change: equalities at values that single precision computes exactly (the
  integer literals \<open>-1\<close>, \<open>0\<close>, \<open>45\<close>, ..., \<open>315\<close>, \<open>180\<close>, \<open>3\<close> and their sums), and
  inequalities that rounding to the nearest float cannot cross.
  The C++ \<^verbatim>\<open>int\<close> values (\<^verbatim>\<open>degrees\<close>, \<^verbatim>\<open>milliseconds\<close>) are modelled as \<^typ>\<open>int\<close>; the
  only integer operation is \<^verbatim>\<open>degrees % 360\<close>, which cannot overflow and truncates toward
  zero (\<open>smod\<close>).
\<close>

subsection \<open>Single precision\<close>

text \<open>
  A finite single-precision value is \<open>n * 2^e\<close> with \<open>\<bar>n\<bar> < 2^24\<close> and
  \<open>-149 \<le> e \<le> 104\<close>. \<open>f32_exponent a\<close> is the binary exponent of \<open>a\<close>, searched upwards
  from the smallest normal exponent \<open>-126\<close> (which also serves the subnormal values) to
  the largest, 127. \<open>f32 a\<close> rounds \<open>a\<close> to the nearest multiple of the unit in the last
  place, \<open>2^(exponent - 23)\<close>, a tie going to the even multiple: the default rounding of
  every C++ \<^verbatim>\<open>float\<close> operation. Overflow to infinity is not modelled; no operation
  below reaches it from a finite float.
\<close>

function f32_exponent_from :: "int \<Rightarrow> real \<Rightarrow> int" where
  "f32_exponent_from e a =
     (if 127 \<le> e \<or> a < 2 powi (e + 1) then e else f32_exponent_from (e + 1) a)"
  by pat_completeness auto
termination
  by (relation "measure (\<lambda>(e, a). nat (127 - e))") auto

declare f32_exponent_from.simps [simp del]

definition f32_exponent :: "real \<Rightarrow> int" where
  "f32_exponent a = f32_exponent_from (- 126) \<bar>a\<bar>"

definition round_half_even :: "real \<Rightarrow> int" where
  "round_half_even q =
     (let n = \<lfloor>q\<rfloor>; r = q - of_int n
      in if r < 1 / 2 then n else if 1 / 2 < r then n + 1 else if even n then n else n + 1)"

definition f32 :: "real \<Rightarrow> real" where
  "f32 a = (let u = 2 powi (f32_exponent a - 23) in of_int (round_half_even (a / u)) * u)"

subsection \<open>Types of the rendering library\<close>

text \<open>
  \<^verbatim>\<open>Vector3\<close>, \<^verbatim>\<open>Camera3D\<close>, \<^verbatim>\<open>CAMERA_PERSPECTIVE\<close> and \<^verbatim>\<open>PI\<close> are declared in
  \<^verbatim>\<open>raylib.h\<close>, the header of the rendering library. The records below list the
  fields that \<^verbatim>\<open>main.cpp\<close> reads and writes.
\<close>

record Vector3 =
  x :: real
  y :: real
  z :: real

datatype CameraProjection = CAMERA_PERSPECTIVE | CAMERA_ORTHOGRAPHIC

record Camera3D =
  position :: Vector3
  target :: Vector3
  up :: Vector3
  fovy :: real
  projection :: CameraProjection

text \<open>
  The macro \<^verbatim>\<open>PI\<close> of \<^verbatim>\<open>raylib.h\<close> is the single-precision literal
  \<^verbatim>\<open>3.14159265358979323846f\<close>: the float nearest to the circle constant, which is
  \<open>13176795 / 2^22\<close>, about \<open>8.7e-8\<close> above it.
\<close>

definition PI :: real where
  "PI = f32 3.14159265358979323846"

subsection \<open>turnToAngle (lines 21 to 38)\<close>

definition turnToAngle :: "Vector3 \<Rightarrow> Vector3 \<Rightarrow> int \<Rightarrow> Vector3" where
  "turnToAngle posToTurn posCenter degrees =
     (let radians = f32 (real_of_int (degrees smod 360) * f32 (PI / 180));
          dx = x posToTurn - x posCenter;
          dz = z posToTurn - z posCenter;
          rotatedX = dx * cos radians - dz * sin radians;
          rotatedZ = dx * sin radians + dz * cos radians
      in \<lparr> x = rotatedX + x posCenter, y = y posToTurn, z = rotatedZ + z posCenter \<rparr>)"

subsection \<open>normalizeAngle (lines 40 to 44)\<close>

text \<open>
  The two \<^verbatim>\<open>while\<close> loops run one after the other; each is a recursive function of the
  loop variable, with its termination proved.
\<close>

function normalizeAngle_down :: "real \<Rightarrow> real" where
  "normalizeAngle_down angle =
     (if angle > 180 then normalizeAngle_down (angle - 360) else angle)"
  by pat_completeness auto
termination
proof (relation "measure (\<lambda>angle. nat \<lceil>angle\<rceil>)")
  show "wf (measure (\<lambda>angle. nat \<lceil>angle\<rceil>))" by simp
next
  fix angle :: real
  assume "180 < angle"
  then have "\<lceil>angle - 360\<rceil> < \<lceil>angle\<rceil>" and "0 < \<lceil>angle\<rceil>"
    by linarith+
  then show "(angle - 360, angle) \<in> measure (\<lambda>angle. nat \<lceil>angle\<rceil>)"
    by simp
qed

function normalizeAngle_up :: "real \<Rightarrow> real" where
  "normalizeAngle_up angle =
     (if angle < - 180 then normalizeAngle_up (angle + 360) else angle)"
  by pat_completeness auto
termination
proof (relation "measure (\<lambda>angle. nat \<lceil>- angle\<rceil>)")
  show "wf (measure (\<lambda>angle. nat \<lceil>- angle\<rceil>))" by simp
next
  fix angle :: real
  assume "angle < - 180"
  then have "\<lceil>- (angle + 360)\<rceil> < \<lceil>- angle\<rceil>" and "0 < \<lceil>- angle\<rceil>"
    by linarith+
  then show "(angle + 360, angle) \<in> measure (\<lambda>angle. nat \<lceil>- angle\<rceil>)"
    by simp
qed

declare normalizeAngle_down.simps [simp del]
declare normalizeAngle_up.simps [simp del]

definition normalizeAngle :: "real \<Rightarrow> real" where
  "normalizeAngle angle = normalizeAngle_up (normalizeAngle_down angle)"

subsection \<open>normalizeAngle in single precision\<close>

text \<open>
  The two loops of \<^verbatim>\<open>normalizeAngle\<close> with \<^verbatim>\<open>angle -= 360.0f\<close> and
  \<^verbatim>\<open>angle += 360.0f\<close> rounded. A loop that does not end has the value \<open>None\<close>.
\<close>

partial_function (option) normalizeAngle_down_f32 :: "real \<Rightarrow> real option" where
  "normalizeAngle_down_f32 angle =
     (if angle > 180 then normalizeAngle_down_f32 (f32 (angle - 360)) else Some angle)"

partial_function (option) normalizeAngle_up_f32 :: "real \<Rightarrow> real option" where
  "normalizeAngle_up_f32 angle =
     (if angle < - 180 then normalizeAngle_up_f32 (f32 (angle + 360)) else Some angle)"

definition normalizeAngle_f32 :: "real \<Rightarrow> real option" where
  "normalizeAngle_f32 angle =
     (case normalizeAngle_down_f32 angle of None \<Rightarrow> None | Some a \<Rightarrow> normalizeAngle_up_f32 a)"

subsection \<open>updateRotation (lines 46 to 68)\<close>

text \<open>
  The reference parameter \<^verbatim>\<open>playerRotationCurrent\<close> is passed in and its new value
  returned. The first branch is the early \<^verbatim>\<open>return\<close> of line 52.
\<close>

definition updateRotation :: "real \<Rightarrow> real \<Rightarrow> real \<Rightarrow> real" where
  "updateRotation playerRotationCurrent lastPlayerDirection deltaTime =
     (let turnSpeed = 0.5;
          diff = normalizeAngle (lastPlayerDirection - playerRotationCurrent)
      in if \<bar>diff\<bar> < f32 0.01 then lastPlayerDirection
         else
           let turnStep = turnSpeed * deltaTime;
               current = (if diff > 0
                          then playerRotationCurrent + (if diff < turnStep then diff else turnStep)
                          else playerRotationCurrent + (if diff > - turnStep then diff else - turnStep))
           in normalizeAngle current)"

text \<open>
  The same function with every operation rounded: the subtraction of line 48, the product
  of line 55 and the additions of lines 59 and 63. \<^verbatim>\<open>turnSpeed\<close> is \<open>0.5\<close>, a float, and
  the negation of \<^verbatim>\<open>turnStep\<close> is exact.
\<close>

definition updateRotation_f32 :: "real \<Rightarrow> real \<Rightarrow> real \<Rightarrow> real option" where
  "updateRotation_f32 playerRotationCurrent lastPlayerDirection deltaTime =
     (let turnSpeed = 0.5
      in case normalizeAngle_f32 (f32 (lastPlayerDirection - playerRotationCurrent)) of
           None \<Rightarrow> None
         | Some diff \<Rightarrow>
             if \<bar>diff\<bar> < f32 0.01 then Some lastPlayerDirection
             else
               let turnStep = f32 (turnSpeed * deltaTime);
                   current = (if diff > 0
                              then f32 (playerRotationCurrent
                                        + (if diff < turnStep then diff else turnStep))
                              else f32 (playerRotationCurrent
                                        + (if diff > - turnStep then diff else - turnStep)))
               in normalizeAngle_f32 current)"

text \<open>
  \<open>n\<close> calls in a row with the same target and the same elapsed time, each on the
  rotation the one before has left.
\<close>

fun updateRotation_f32_calls :: "nat \<Rightarrow> real \<Rightarrow> real \<Rightarrow> real \<Rightarrow> real option" where
  "updateRotation_f32_calls 0 current lastPlayerDirection dt = Some current"
| "updateRotation_f32_calls (Suc n) current lastPlayerDirection dt =
     (case updateRotation_f32 current lastPlayerDirection dt of
        None \<Rightarrow> None
      | Some c \<Rightarrow> updateRotation_f32_calls n c lastPlayerDirection dt)"

subsection \<open>The frame loop of main (lines 73 to 178)\<close>

text \<open>
  What one iteration reads from outside: the held state of the four direction keys
  (\<^verbatim>\<open>IsKeyDown\<close>), the pressed edge of the space bar (\<^verbatim>\<open>IsKeyPressed\<close>) and the
  elapsed time in milliseconds, a C++ \<^verbatim>\<open>int\<close>.
\<close>

record frame_input =
  keyW :: bool
  keyD :: bool
  keyS :: bool
  keyA :: bool
  spacePressed :: bool
  milliseconds :: int

text \<open>The local variables of \<^verbatim>\<open>main\<close> that live across iterations.\<close>

record game_state =
  camera :: Camera3D
  playerPosition :: Vector3
  playerDirection :: real
  lastPlayerDirection :: real
  playerRotationCurrent :: real
  jump :: real
  gravity :: real
  currentAddedHeight :: real

definition initial_state :: game_state where
  "initial_state =
     \<lparr> camera = \<lparr> position = \<lparr> x = 0, y = 25, z = 5 \<rparr>,
                  target = \<lparr> x = 0, y = 0, z = 0 \<rparr>,
                  up = \<lparr> x = 0, y = 1, z = 0 \<rparr>,
                  fovy = 45,
                  projection = CAMERA_PERSPECTIVE \<rparr>,
       playerPosition = \<lparr> x = 0, y = 2, z = 0 \<rparr>,
       playerDirection = - 1,
       lastPlayerDirection = 180,
       playerRotationCurrent = 180,
       jump = 0,
       gravity = 1,
       currentAddedHeight = 0 \<rparr>"

text \<open>Lines 121 to 130: the heading from the keys, in the order of the \<^verbatim>\<open>else if\<close> chain.\<close>

definition resolveDirection :: "bool \<Rightarrow> bool \<Rightarrow> bool \<Rightarrow> bool \<Rightarrow> real" where
  "resolveDirection w a s d =
     (if w \<and> d then 45
      else if d \<and> s then 135
      else if s \<and> a then 225
      else if a \<and> w then 315
      else if w then 0
      else if d then 90
      else if s then 180
      else if a then 270
      else - 1)"

text \<open>Lines 132 to 135: the jump trigger.\<close>

definition jumpTrigger :: "bool \<Rightarrow> real \<Rightarrow> real \<Rightarrow> real" where
  "jumpTrigger pressed height j = (if pressed \<and> height = 0 then 3 else j)"

text \<open>Line 139: the decay of \<^verbatim>\<open>jump\<close>.\<close>

definition jumpDecay :: "real \<Rightarrow> int \<Rightarrow> real" where
  "jumpDecay j ms = (if j > 0 then j - 0.01 * real_of_int ms else j)"

text \<open>
  The same line with every operation rounded: the conversion of \<^verbatim>\<open>milliseconds\<close> to
  float, the product with \<^verbatim>\<open>0.01f\<close> and the subtraction.
\<close>

definition jumpDecay_f32 :: "real \<Rightarrow> int \<Rightarrow> real" where
  "jumpDecay_f32 j ms =
     (if j > 0 then f32 (j - f32 (f32 0.01 * f32 (real_of_int ms))) else j)"

text \<open>Lines 137, 138, 140 and 141: the height integration and its clamp.\<close>

definition integrateHeight :: "real \<Rightarrow> real \<Rightarrow> real \<Rightarrow> int \<Rightarrow> real" where
  "integrateHeight height j g ms =
     (let addHeight = 0.01 * j * real_of_int ms;
          reduceHeight = 0.01 * g * real_of_int ms;
          h = height + (addHeight - reduceHeight)
      in if h < 0 then 0 else h)"

text \<open>Lines 146 to 148: the translation, run when the heading is not the sentinel.\<close>

definition movePlayer :: "real \<Rightarrow> int \<Rightarrow> Vector3 \<Rightarrow> Vector3" where
  "movePlayer dir ms pos =
     (let radians = f32 (f32 (PI / 180) * f32 (dir - 90))
      in pos \<lparr> x := x pos + 0.01 * real_of_int ms * cos radians,
               z := z pos + 0.01 * real_of_int ms * sin radians \<rparr>)"

text \<open>Lines 151 to 153: the camera follows the character.\<close>

definition followCamera :: "Vector3 \<Rightarrow> Camera3D \<Rightarrow> Camera3D" where
  "followCamera pos cam =
     cam \<lparr> position := (position cam) \<lparr> x := x pos, z := z pos + 15 \<rparr>,
           target := pos \<rparr>"

text \<open>
  One iteration of the loop, lines 121 to 153, in the order of the source. \<^verbatim>\<open>addHeight\<close>
  is computed from \<^verbatim>\<open>jump\<close> after the trigger and before the decay.
  \<^verbatim>\<open>updateRotation\<close> is not called by \<^verbatim>\<open>main\<close>: \<^verbatim>\<open>playerRotationCurrent\<close> keeps its
  value.
\<close>

definition frame :: "frame_input \<Rightarrow> game_state \<Rightarrow> game_state" where
  "frame inp s =
     (let ms = milliseconds inp;
          dir = resolveDirection (keyW inp) (keyA inp) (keyS inp) (keyD inp);
          j = jumpTrigger (spacePressed inp) (currentAddedHeight s) (jump s);
          height = integrateHeight (currentAddedHeight s) j (gravity s) ms;
          pos = (if dir \<ge> 0 then movePlayer dir ms (playerPosition s) else playerPosition s)
      in s \<lparr> camera := followCamera pos (camera s),
             playerPosition := pos,
             playerDirection := dir,
             lastPlayerDirection := (if dir \<ge> 0 then dir else lastPlayerDirection s),
             jump := jumpDecay j ms,
             currentAddedHeight := height \<rparr>)"

text \<open>
  The loop runs one iteration per element of the list of inputs, until the window is
  closed.
\<close>

fun run :: "game_state \<Rightarrow> frame_input list \<Rightarrow> game_state" where
  "run s [] = s"
| "run s (inp # inps) = run (frame inp s) inps"

text \<open>Lines 157 and 158: the two end points handed to \<^verbatim>\<open>DrawCapsule\<close>.\<close>

definition capsuleStart :: "game_state \<Rightarrow> Vector3" where
  "capsuleStart s =
     \<lparr> x = x (playerPosition s),
       y = y (playerPosition s) + currentAddedHeight s,
       z = z (playerPosition s) \<rparr>"

definition capsuleEnd :: "game_state \<Rightarrow> Vector3" where
  "capsuleEnd s =
     \<lparr> x = x (playerPosition s),
       y = y (playerPosition s) + 1.5 + currentAddedHeight s,
       z = z (playerPosition s) \<rparr>"

section \<open>Rounding to single precision\<close>

subsection \<open>The literals\<close>

text \<open>The two literals that are not floats themselves, rounded.\<close>

lemma f32_hundredth:
  "f32 0.01 = 5368709 / 536870912"
  "f32 (1 / 100) = 5368709 / 536870912"
  by (simp_all add: f32_def f32_exponent_def f32_exponent_from.simps round_half_even_def Let_def)


subsection \<open>The exponent\<close>

text \<open>
  The exponent search returns \<open>E\<close> with \<open>2^E \<le> \<bar>a\<bar> < 2^(E + 1)\<close>, except at the two ends
  of the range, and it is monotone in \<open>\<bar>a\<bar>\<close>.
\<close>

lemma f32_exponent_from_ge: "e \<le> f32_exponent_from e a"
proof (induction e a rule: f32_exponent_from.induct)
  case (1 e a)
  show ?case
  proof (cases "127 \<le> e \<or> a < 2 powi (e + 1)")
    case True
    then show ?thesis by (subst f32_exponent_from.simps) simp
  next
    case False
    with 1 have "e + 1 \<le> f32_exponent_from (e + 1) a" by simp
    with False show ?thesis by (subst f32_exponent_from.simps) simp
  qed
qed

lemma f32_exponent_from_le: "e \<le> 127 \<Longrightarrow> f32_exponent_from e a \<le> 127"
proof (induction e a rule: f32_exponent_from.induct)
  case (1 e a)
  show ?case
  proof (cases "127 \<le> e \<or> a < 2 powi (e + 1)")
    case True
    with 1(2) show ?thesis by (subst f32_exponent_from.simps) simp
  next
    case False
    with 1 have "f32_exponent_from (e + 1) a \<le> 127" by simp
    with False show ?thesis by (subst f32_exponent_from.simps) simp
  qed
qed

lemma f32_exponent_from_upper:
  "f32_exponent_from e a < 127 \<Longrightarrow> a < 2 powi (f32_exponent_from e a + 1)"
proof (induction e a rule: f32_exponent_from.induct)
  case (1 e a)
  show ?case
  proof (cases "127 \<le> e \<or> a < 2 powi (e + 1)")
    case True
    then have eq: "f32_exponent_from e a = e" by (subst f32_exponent_from.simps) simp
    with 1(2) True show ?thesis by simp
  next
    case False
    then have eq: "f32_exponent_from e a = f32_exponent_from (e + 1) a"
      by (subst f32_exponent_from.simps) simp
    with 1 False show ?thesis by simp
  qed
qed

lemma f32_exponent_from_lower:
  "e < f32_exponent_from e a \<Longrightarrow> 2 powi (f32_exponent_from e a) \<le> a"
proof (induction e a rule: f32_exponent_from.induct)
  case (1 e a)
  show ?case
  proof (cases "127 \<le> e \<or> a < 2 powi (e + 1)")
    case True
    then have "f32_exponent_from e a = e" by (subst f32_exponent_from.simps) simp
    with 1(2) show ?thesis by simp
  next
    case False
    then have eq: "f32_exponent_from e a = f32_exponent_from (e + 1) a"
      by (subst f32_exponent_from.simps) simp
    show ?thesis
    proof (cases "e + 1 < f32_exponent_from (e + 1) a")
      case True
      with 1(1) False eq show ?thesis by simp
    next
      case stop: False
      with f32_exponent_from_ge [of "e + 1" a] have "f32_exponent_from (e + 1) a = e + 1"
        by simp
      with False eq show ?thesis by simp
    qed
  qed
qed

lemma f32_exponent_mono:
  assumes "\<bar>b\<bar> \<le> \<bar>a\<bar>"
  shows "f32_exponent b \<le> f32_exponent a"
proof (rule ccontr)
  assume "\<not> f32_exponent b \<le> f32_exponent a"
  then have less: "f32_exponent a < f32_exponent b" by simp
  have "f32_exponent b \<le> 127"
    unfolding f32_exponent_def by (rule f32_exponent_from_le) simp
  with less have "f32_exponent a < 127" by simp
  then have up: "\<bar>a\<bar> < 2 powi (f32_exponent a + 1)"
    unfolding f32_exponent_def by (rule f32_exponent_from_upper)
  have "- 126 \<le> f32_exponent a"
    unfolding f32_exponent_def by (rule f32_exponent_from_ge)
  with less have "- 126 < f32_exponent b" by simp
  then have low: "2 powi (f32_exponent b) \<le> \<bar>b\<bar>"
    unfolding f32_exponent_def by (rule f32_exponent_from_lower)
  have "(2::real) powi (f32_exponent a + 1) \<le> 2 powi (f32_exponent b)"
    using less by (intro power_int_increasing) simp_all
  with up low assms show False by linarith
qed

subsection \<open>Rounding to the nearest integer, ties to even\<close>

lemma round_half_even_of_int: "round_half_even (of_int k) = k"
  by (simp add: round_half_even_def)

lemma round_half_even_le: "q \<le> of_int N \<Longrightarrow> round_half_even q \<le> N"
proof -
  assume q: "q \<le> of_int N"
  then have fl: "\<lfloor>q\<rfloor> \<le> N" by (simp add: floor_le_iff) 
  show ?thesis
  proof (cases "\<lfloor>q\<rfloor> = N")
    case True
    with q have "q = of_int N" using of_int_floor_le [of q] by simp
    then show ?thesis by (simp add: round_half_even_of_int)
  next
    case False
    with fl have "\<lfloor>q\<rfloor> + 1 \<le> N" by simp
    then show ?thesis by (simp add: round_half_even_def Let_def)
  qed
qed

lemma round_half_even_ge: "of_int N \<le> q \<Longrightarrow> N \<le> round_half_even q"
proof -
  assume "of_int N \<le> q"
  then have "N \<le> \<lfloor>q\<rfloor>" by (simp add: le_floor_iff)
  then show ?thesis by (simp add: round_half_even_def Let_def)
qed

lemma round_half_even_error: "\<bar>of_int (round_half_even q) - q\<bar> \<le> 1 / 2"
proof -
  have "of_int \<lfloor>q\<rfloor> \<le> q" and "q < of_int \<lfloor>q\<rfloor> + 1" by linarith+
  then show ?thesis by (auto simp: round_half_even_def Let_def)
qed

lemma round_half_even_minus: "round_half_even (- q) = - round_half_even q"
proof (cases "q = of_int \<lfloor>q\<rfloor>")
  case True
  then obtain n :: int where "q = of_int n" ..
  then have "- q = of_int (- n)" by simp
  then show ?thesis unfolding \<open>q = of_int n\<close> by (simp only: round_half_even_of_int)
next
  case False
  then have bounds: "of_int \<lfloor>q\<rfloor> < q" "q < of_int \<lfloor>q\<rfloor> + 1"
    by linarith+
  have fl: "\<lfloor>- q\<rfloor> = - \<lfloor>q\<rfloor> - 1"
  proof (rule floor_unique)
    have cast: "real_of_int (- \<lfloor>q\<rfloor> - 1) = - real_of_int \<lfloor>q\<rfloor> - 1" by simp
    show "real_of_int (- \<lfloor>q\<rfloor> - 1) \<le> - q" unfolding cast by linarith
    show "- q < real_of_int (- \<lfloor>q\<rfloor> - 1) + 1" unfolding cast using bounds(1) by linarith
  qed
  show ?thesis
    unfolding round_half_even_def Let_def fl
    using bounds by (auto simp: algebra_simps)
qed

subsection \<open>The rounded value\<close>

text \<open>
  A multiple of the unit in the last place of \<open>a\<close> that is no larger than \<open>a\<close> in size is
  a float, and so is every integer below \<open>2^24\<close> in size. Rounding is odd and idempotent,
  it moves a real by at most half a unit in the last place, and it does not cross a
  float: if \<open>a \<le> r\<close> for a float \<open>r\<close>, then \<open>f32 a \<le> r\<close>, and the same from below.
\<close>

lemma pow2_shift:
  assumes "n \<le> m"
  shows "(2::real) powi m = of_int (2 ^ nat (m - n)) * 2 powi n"
proof -
  have "(2::real) powi ((m - n) + n) = 2 powi (m - n) * 2 powi n"
    by (rule power_int_add) simp
  moreover have "(m - n) + n = m" by simp
  moreover have "(2::real) powi (m - n) = 2 ^ nat (m - n)"
    using assms by (simp add: power_int_nonneg_exp)
  ultimately show ?thesis by simp
qed

lemma pow2_mono: "n \<le> m \<Longrightarrow> (2::real) powi n \<le> 2 powi m"
  by (intro power_int_increasing) simp_all

lemma f32_exponent_range: "- 126 \<le> f32_exponent a" "f32_exponent a \<le> 127"
  unfolding f32_exponent_def
  by (rule f32_exponent_from_ge, rule f32_exponent_from_le) simp

lemma f32_exponent_upper: "f32_exponent a < 127 \<Longrightarrow> \<bar>a\<bar> < 2 powi (f32_exponent a + 1)"
  unfolding f32_exponent_def by (rule f32_exponent_from_upper)

lemma f32_exponent_lower: "- 126 < f32_exponent a \<Longrightarrow> 2 powi (f32_exponent a) \<le> \<bar>a\<bar>"
  unfolding f32_exponent_def by (rule f32_exponent_from_lower)

lemma f32_exponent_less:
  assumes "\<bar>a\<bar> < 2 powi k" and "- 125 \<le> k"
  shows "f32_exponent a < k"
proof (rule ccontr)
  assume "\<not> f32_exponent a < k"
  then have big: "k \<le> f32_exponent a" by simp
  with assms(2) have "- 126 < f32_exponent a" by simp
  then have "2 powi (f32_exponent a) \<le> \<bar>a\<bar>" by (rule f32_exponent_lower)
  with pow2_mono [OF big] assms(1) show False by linarith
qed

lemma f32_exponent_minus: "f32_exponent (- a) = f32_exponent a"
  by (simp add: f32_exponent_def)

lemma f32_minus: "f32 (- a) = - f32 a"
  by (simp add: f32_def Let_def f32_exponent_minus round_half_even_minus)

lemma f32_0: "f32 0 = 0"
  by (simp add: f32_def Let_def round_half_even_def)

lemma f32_exact_quotient:
  assumes "a = of_int m * 2 powi (f32_exponent a - 23)"
  shows "f32 a = a"
proof -
  have "a / 2 powi (f32_exponent a - 23) = of_int m"
    using assms by (simp add: field_simps)
  then have "round_half_even (a / 2 powi (f32_exponent a - 23)) = m"
    by (simp only: round_half_even_of_int)
  then have "f32 a = of_int m * 2 powi (f32_exponent a - 23)"
    by (simp add: f32_def Let_def)
  with assms show ?thesis by simp
qed

lemma f32_multiple:
  assumes b: "b = of_int m * 2 powi (f32_exponent a - 23)" and le: "\<bar>b\<bar> \<le> \<bar>a\<bar>"
  shows "f32 b = b"
proof -
  have "f32_exponent b \<le> f32_exponent a" using le by (rule f32_exponent_mono)
  then have "f32_exponent b - 23 \<le> f32_exponent a - 23" by simp
  from pow2_shift [OF this]
  have "b = of_int m * (of_int (2 ^ nat (f32_exponent a - 23 - (f32_exponent b - 23)))
            * 2 powi (f32_exponent b - 23))"
    using b by (simp only:)
  then have "b = of_int (m * 2 ^ nat (f32_exponent a - 23 - (f32_exponent b - 23)))
            * 2 powi (f32_exponent b - 23)"
    by (simp only: of_int_mult mult.assoc)
  then show ?thesis by (rule f32_exact_quotient)
qed

lemma f32_float_multiple:
  assumes "f32 a = a"
  obtains n :: int where "a = of_int n * 2 powi (f32_exponent a - 23)"
proof
  show "a = of_int (round_half_even (a / 2 powi (f32_exponent a - 23))) * 2 powi (f32_exponent a - 23)"
    using assms by (simp add: f32_def Let_def)
qed

lemma f32_of_int:
  assumes "\<bar>k\<bar> < 2 ^ 24"
  shows "f32 (of_int k) = of_int k"
proof -
  have "\<bar>real_of_int k\<bar> < 2 powi 24" using assms
    by (simp flip: of_int_abs)
  then have "f32_exponent (of_int k) < 24" by (rule f32_exponent_less) simp
  then have "f32_exponent (real_of_int k) - 23 \<le> 0" by simp
  from pow2_shift [OF this]
  have "real_of_int k = of_int k * (of_int (2 ^ nat (0 - (f32_exponent (real_of_int k) - 23)))
            * 2 powi (f32_exponent (real_of_int k) - 23))"
    by simp
  then have "real_of_int k = of_int (k * 2 ^ nat (0 - (f32_exponent (real_of_int k) - 23)))
            * 2 powi (f32_exponent (real_of_int k) - 23)"
    by (simp only: of_int_mult mult.assoc)
  then show ?thesis by (rule f32_exact_quotient)
qed

lemma f32_error: "\<bar>f32 a - a\<bar> \<le> 2 powi (f32_exponent a - 23) / 2"
proof -
  define u :: real where "u = 2 powi (f32_exponent a - 23)"
  define k where "k = round_half_even (a / u)"
  have u: "0 < u" by (simp add: u_def)
  have "\<bar>of_int k - a / u\<bar> \<le> 1 / 2"
    unfolding k_def by (rule round_half_even_error)
  then have "\<bar>of_int k - a / u\<bar> * u \<le> (1 / 2) * u"
    using u by (intro mult_right_mono) simp_all
  moreover have "\<bar>of_int k - a / u\<bar> * u = \<bar>(of_int k - a / u) * u\<bar>"
    using u by (simp add: abs_mult)
  moreover have "(of_int k - a / u) * u = of_int k * u - a"
    using u by (simp add: algebra_simps)
  ultimately have "\<bar>of_int k * u - a\<bar> \<le> u / 2" by simp
  moreover have "f32 a = of_int k * u"
    by (simp add: f32_def Let_def u_def k_def)
  ultimately show ?thesis by (simp add: u_def)
qed

lemma pow2_next_binade: "(2::real) powi (e + 1) = of_int (2 ^ 24) * 2 powi (e - 23)"
  using pow2_shift [of "e - 23" "e + 1"] by simp

lemma pow2_binade: "(2::real) powi e = of_int (2 ^ 23) * 2 powi (e - 23)"
  using pow2_shift [of "e - 23" e] by simp

lemma f32_scaled_le:
  assumes "a \<le> of_int N * 2 powi (f32_exponent a - 23)"
  shows "f32 a \<le> of_int N * 2 powi (f32_exponent a - 23)"
proof -
  define u :: real where "u = 2 powi (f32_exponent a - 23)"
  have u: "0 < u" by (simp add: u_def)
  from assms have "a / u \<le> of_int N"
    using u by (simp add: u_def field_simps)
  then have "round_half_even (a / u) \<le> N" by (rule round_half_even_le)
  then have "real_of_int (round_half_even (a / u)) * u \<le> of_int N * u"
    using u by (intro mult_right_mono) simp_all
  then show ?thesis by (simp add: f32_def Let_def u_def)
qed

lemma f32_le_float:
  assumes r: "f32 r = r" and le: "a \<le> r"
  shows "f32 a \<le> r"
proof -
  consider "f32_exponent a = f32_exponent r" | "f32_exponent a < f32_exponent r"
    | "f32_exponent r < f32_exponent a" by linarith
  then show ?thesis
  proof cases
    case 1
    obtain n :: int where n: "r = of_int n * 2 powi (f32_exponent r - 23)"
      using r by (rule f32_float_multiple)
    with le 1 have "a \<le> of_int n * 2 powi (f32_exponent a - 23)" by simp
    then have "f32 a \<le> of_int n * 2 powi (f32_exponent a - 23)" by (rule f32_scaled_le)
    with n 1 show ?thesis by simp
  next
    case 2
    with f32_exponent_range(2) [of r] have "f32_exponent a < 127" by simp
    then have a: "\<bar>a\<bar> < 2 powi (f32_exponent a + 1)" by (rule f32_exponent_upper)
    from 2 f32_exponent_range(1) [of a] have "- 126 < f32_exponent r" by simp
    then have "2 powi (f32_exponent r) \<le> \<bar>r\<bar>" by (rule f32_exponent_lower)
    moreover have "(2::real) powi (f32_exponent a + 1) \<le> 2 powi (f32_exponent r)"
      using 2 by (intro pow2_mono) simp
    ultimately have big: "2 powi (f32_exponent a + 1) \<le> \<bar>r\<bar>" by simp
    with a le have "2 powi (f32_exponent a + 1) \<le> r" by linarith
    moreover have "a \<le> 2 powi (f32_exponent a + 1)"
      using a by linarith
    then have "a \<le> of_int (2 ^ 24) * 2 powi (f32_exponent a - 23)"
      by (simp only: pow2_next_binade)
    then have "f32 a \<le> of_int (2 ^ 24) * 2 powi (f32_exponent a - 23)" by (rule f32_scaled_le)
    then have "f32 a \<le> 2 powi (f32_exponent a + 1)"
      by (simp only: pow2_next_binade)
    ultimately show ?thesis by linarith
  next
    case 3
    with f32_exponent_range(2) [of a] have "f32_exponent r < 127" by simp
    then have rr: "\<bar>r\<bar> < 2 powi (f32_exponent r + 1)" by (rule f32_exponent_upper)
    from 3 f32_exponent_range(1) [of r] have "- 126 < f32_exponent a" by simp
    then have "2 powi (f32_exponent a) \<le> \<bar>a\<bar>" by (rule f32_exponent_lower)
    moreover have "(2::real) powi (f32_exponent r + 1) \<le> 2 powi (f32_exponent a)"
      using 3 by (intro pow2_mono) simp
    ultimately have big: "\<bar>r\<bar> < 2 powi (f32_exponent a)" "2 powi (f32_exponent a) \<le> \<bar>a\<bar>"
      using rr by simp_all
    with le have "a \<le> - (2 powi (f32_exponent a))" by linarith
    then have "a \<le> of_int (- (2 ^ 23)) * 2 powi (f32_exponent a - 23)"
      using pow2_binade [of "f32_exponent a"] by simp
    then have "f32 a \<le> of_int (- (2 ^ 23)) * 2 powi (f32_exponent a - 23)"
      by (rule f32_scaled_le)
    then have "f32 a \<le> - (2 powi (f32_exponent a))"
      using pow2_binade [of "f32_exponent a"] by simp
    with big show ?thesis by linarith
  qed
qed

lemma f32_ge_float:
  assumes r: "f32 r = r" and le: "r \<le> a"
  shows "r \<le> f32 a"
proof -
  have "f32 (- r) = - r" using r by (simp add: f32_minus)
  moreover have "- a \<le> - r" using le by simp
  ultimately have "f32 (- a) \<le> - r" by (rule f32_le_float)
  then show ?thesis by (simp add: f32_minus)
qed

lemma f32_nonneg: "0 \<le> a \<Longrightarrow> 0 \<le> f32 a"
  by (rule f32_ge_float) (simp_all add: f32_0)

lemma f32_idem: "f32 (f32 a) = f32 a"
proof -
  define u :: real where "u = 2 powi (f32_exponent a - 23)"
  define k where "k = round_half_even (a / u)"
  have u: "0 < u" by (simp add: u_def)
  have y: "f32 a = of_int k * u" by (simp add: f32_def Let_def u_def k_def)
  show ?thesis
  proof (cases "f32_exponent (f32 a) \<le> f32_exponent a")
    case True
    then have "f32_exponent (f32 a) - 23 \<le> f32_exponent a - 23" by simp
    from pow2_shift [OF this] y
    have "f32 a = of_int k * (of_int (2 ^ nat (f32_exponent a - 23 - (f32_exponent (f32 a) - 23)))
            * 2 powi (f32_exponent (f32 a) - 23))"
      by (simp only: u_def)
    then have "f32 a = of_int (k * 2 ^ nat (f32_exponent a - 23 - (f32_exponent (f32 a) - 23)))
            * 2 powi (f32_exponent (f32 a) - 23)"
      by (simp only: of_int_mult mult.assoc)
    then show ?thesis by (rule f32_exact_quotient)
  next
    case False
    then have gt: "f32_exponent a < f32_exponent (f32 a)" by simp
    with f32_exponent_range(2) [of "f32 a"] have "f32_exponent a < 127" by simp
    then have a: "\<bar>a\<bar> < 2 powi (f32_exponent a + 1)" by (rule f32_exponent_upper)
    have top: "(2::real) powi (f32_exponent a + 1) = of_int (2 ^ 24) * u"
      unfolding u_def by (rule pow2_next_binade)
    have "a \<le> of_int (2 ^ 24) * u" using a top by linarith
    then have up: "f32 a \<le> of_int (2 ^ 24) * u" unfolding u_def by (rule f32_scaled_le)
    have "- a \<le> of_int (2 ^ 24) * u" using a top by linarith
    then have "- a \<le> of_int (2 ^ 24) * 2 powi (f32_exponent (- a) - 23)"
      by (simp only: f32_exponent_minus u_def)
    then have "f32 (- a) \<le> of_int (2 ^ 24) * 2 powi (f32_exponent (- a) - 23)"
      by (rule f32_scaled_le)
    then have down: "- (of_int (2 ^ 24) * u) \<le> f32 a"
      by (simp add: f32_minus f32_exponent_minus u_def)
    from gt f32_exponent_range(1) [of a] have "- 126 < f32_exponent (f32 a)" by simp
    then have low: "2 powi (f32_exponent (f32 a)) \<le> \<bar>f32 a\<bar>" by (rule f32_exponent_lower)
    have "(2::real) powi (f32_exponent a + 1) \<le> 2 powi (f32_exponent (f32 a))"
      using gt by (intro pow2_mono) simp
    with low up down top have size: "\<bar>f32 a\<bar> = 2 powi (f32_exponent a + 1)"
      and same: "(2::real) powi (f32_exponent (f32 a)) = 2 powi (f32_exponent a + 1)"
      by linarith+
    have "f32_exponent (f32 a) = f32_exponent a + 1"
    proof (rule ccontr)
      assume "f32_exponent (f32 a) \<noteq> f32_exponent a + 1"
      with gt have "f32_exponent a + 1 < f32_exponent (f32 a)" by simp
      then have "(2::real) powi (f32_exponent a + 1) < 2 powi (f32_exponent (f32 a))"
        by (intro power_int_strict_increasing) simp_all
      with same show False by simp
    qed
    then have "(2::real) powi (f32_exponent a + 1) = of_int (2 ^ 23) * 2 powi (f32_exponent (f32 a) - 23)"
      using pow2_binade [of "f32_exponent (f32 a)"] by simp
    with size have "f32 a = of_int (2 ^ 23) * 2 powi (f32_exponent (f32 a) - 23)
        \<or> f32 a = of_int (- (2 ^ 23)) * 2 powi (f32_exponent (f32 a) - 23)"
      by (cases "0 \<le> f32 a") simp_all
    then show ?thesis
    proof
      assume "f32 a = of_int (2 ^ 23) * 2 powi (f32_exponent (f32 a) - 23)"
      then show ?thesis by (rule f32_exact_quotient)
    next
      assume "f32 a = of_int (- (2 ^ 23)) * 2 powi (f32_exponent (f32 a) - 23)"
      then show ?thesis by (rule f32_exact_quotient)
    qed
  qed
qed

text \<open>
  A positive float has a float one unit in the last place below it. Up to 180 that unit
  is at most \<open>2^-16\<close>, and below \<open>2^27\<close> the exponent is at most 26.
\<close>

lemma f32_hundredth_float: "f32 (5368709 / 536870912) = 5368709 / 536870912"
  using f32_idem [of "1 / 100"] by (simp only: f32_hundredth)

lemma f32_1: "f32 1 = 1"
  using f32_of_int [of 1] by simp

lemma float_pred:
  assumes a: "f32 a = a" and pos: "0 < a"
  obtains p where "f32 p = p" and "0 \<le> p" and "p = a - 2 powi (f32_exponent a - 23)"
proof -
  define u :: real where "u = 2 powi (f32_exponent a - 23)"
  have u: "0 < u" by (simp add: u_def)
  obtain n :: int where n: "a = of_int n * u"
    using a unfolding u_def by (rule f32_float_multiple)
  with pos u have "0 < real_of_int n" by (simp add: zero_less_mult_iff)
  then have n1: "1 \<le> n" by simp
  define p where "p = of_int (n - 1) * u"
  have p_eq: "p = a - u" by (simp add: p_def n algebra_simps)
  have p0: "0 \<le> p" using n1 u by (simp add: p_def)
  have "\<bar>p\<bar> \<le> \<bar>a\<bar>" using p0 p_eq u pos by simp
  with p_def have "f32 p = p" unfolding u_def by (rule f32_multiple)
  with p0 p_eq show ?thesis using that by (simp add: u_def)
qed

lemma f32_step_floor: "f32 (1 / 2 ^ 16) = 1 / 2 ^ 16"
  by (simp add: f32_def f32_exponent_def f32_exponent_from.simps round_half_even_def Let_def)

lemma f32_180: "f32 180 = 180"
  using f32_of_int [of 180] by simp

lemma ulp_below_256:
  assumes "\<bar>a\<bar> \<le> 180"
  shows "2 powi (f32_exponent a - 23) \<le> (1::real) / 2 ^ 16"
proof -
  have "\<bar>a\<bar> < 2 powi 8" using assms by simp
  then have "f32_exponent a < 8" by (rule f32_exponent_less) simp
  then have "(2::real) powi (f32_exponent a - 23) \<le> 2 powi (- 16)"
    by (intro pow2_mono) simp
  then show ?thesis by simp
qed

lemma f32_exponent_below:
  assumes "\<bar>a\<bar> < 2 ^ 27"
  shows "f32_exponent a \<le> 26"
proof (rule ccontr)
  assume "\<not> f32_exponent a \<le> 26"
  then have big: "27 \<le> f32_exponent a" by simp
  then have "- 126 < f32_exponent a" by simp
  then have low: "2 powi (f32_exponent a) \<le> \<bar>a\<bar>"
    unfolding f32_exponent_def by (rule f32_exponent_from_lower)
  have "(2::real) powi 27 \<le> 2 powi (f32_exponent a)"
    using big by (intro power_int_increasing) simp_all
  with low assms show False by simp
qed

section \<open>Directional input\<close>

text \<open>
  Claim C3. The heading is a function of the four key states alone; its value is the
  sentinel \<open>-1\<close> or one of the eight compass headings. W with D gives 45, W alone gives 0,
  no key gives \<open>-1\<close>, and W with S (A and D up) falls through the diagonal tests to the
  first single-key rule, W, and gives 0.
\<close>

theorem resolveDirection_outcomes:
  "resolveDirection w a s d \<in> {- 1, 0, 45, 90, 135, 180, 225, 270, 315}
   \<and> resolveDirection True False False True = 45
   \<and> resolveDirection True False False False = 0
   \<and> resolveDirection False False False False = - 1
   \<and> resolveDirection True False True False = 0"
  by (simp add: resolveDirection_def)


section \<open>Angle helpers\<close>

subsection \<open>normalizeAngle\<close>

text \<open>
  The first loop only lowers the angle and stops at or below 180; the second only raises
  it and stops at or above \<open>-180\<close>. Each step changes the angle by 360.
\<close>

lemma normalizeAngle_down_upper: "normalizeAngle_down a \<le> 180"
  by (induction a rule: normalizeAngle_down.induct)
     (subst normalizeAngle_down.simps, simp)

lemma normalizeAngle_down_lower: "- 180 \<le> a \<Longrightarrow> - 180 \<le> normalizeAngle_down a"
  by (induction a rule: normalizeAngle_down.induct)
     (subst normalizeAngle_down.simps, simp)

lemma normalizeAngle_down_cong: "\<exists>k::int. normalizeAngle_down a = a + 360 * real_of_int k"
proof (induction a rule: normalizeAngle_down.induct)
  case (1 angle)
  show ?case
  proof (cases "angle > 180")
    case True
    from 1 [OF True] obtain k :: int
      where "normalizeAngle_down (angle - 360) = angle - 360 + 360 * real_of_int k" by blast
    then have "normalizeAngle_down angle = angle + 360 * real_of_int (k - 1)"
      using True by (subst normalizeAngle_down.simps) simp
    then show ?thesis by blast
  next
    case False
    then have "normalizeAngle_down angle = angle + 360 * real_of_int 0"
      by (subst normalizeAngle_down.simps) simp
    then show ?thesis by blast
  qed
qed

lemma normalizeAngle_up_lower: "- 180 \<le> normalizeAngle_up a"
  by (induction a rule: normalizeAngle_up.induct)
     (subst normalizeAngle_up.simps, simp)

lemma normalizeAngle_up_upper: "a \<le> 180 \<Longrightarrow> normalizeAngle_up a \<le> 180"
  by (induction a rule: normalizeAngle_up.induct)
     (subst normalizeAngle_up.simps, simp)

lemma normalizeAngle_up_cong: "\<exists>k::int. normalizeAngle_up a = a + 360 * real_of_int k"
proof (induction a rule: normalizeAngle_up.induct)
  case (1 angle)
  show ?case
  proof (cases "angle < - 180")
    case True
    from 1 [OF True] obtain k :: int
      where "normalizeAngle_up (angle + 360) = angle + 360 + 360 * real_of_int k" by blast
    then have "normalizeAngle_up angle = angle + 360 * real_of_int (k + 1)"
      using True by (subst normalizeAngle_up.simps) simp
    then show ?thesis by blast
  next
    case False
    then have "normalizeAngle_up angle = angle + 360 * real_of_int 0"
      by (subst normalizeAngle_up.simps) simp
    then show ?thesis by blast
  qed
qed

lemma normalizeAngle_id: "- 180 \<le> a \<Longrightarrow> a \<le> 180 \<Longrightarrow> normalizeAngle a = a"
  unfolding normalizeAngle_def
  by (subst normalizeAngle_down.simps, subst normalizeAngle_up.simps) simp

text \<open>
  In exact arithmetic \<open>normalizeAngle a\<close> lies in the closed range from \<open>-180\<close> to \<open>180\<close>
  and differs from \<open>a\<close> by an integer multiple of 360, for every real \<open>a\<close>.
\<close>

lemma normalizeAngle_range_congruent:
  "- 180 \<le> normalizeAngle a \<and> normalizeAngle a \<le> 180
   \<and> (\<exists>k::int. normalizeAngle a = a + 360 * real_of_int k)"
proof -
  obtain k :: int where k: "normalizeAngle_down a = a + 360 * real_of_int k"
    using normalizeAngle_down_cong by blast
  obtain l :: int
    where l: "normalizeAngle_up (normalizeAngle_down a) = normalizeAngle_down a + 360 * real_of_int l"
    using normalizeAngle_up_cong by blast
  have "normalizeAngle a = a + 360 * real_of_int (k + l)"
    unfolding normalizeAngle_def using k l by simp
  moreover have "- 180 \<le> normalizeAngle a"
    unfolding normalizeAngle_def by (rule normalizeAngle_up_lower)
  moreover have "normalizeAngle a \<le> 180"
    unfolding normalizeAngle_def
    by (rule normalizeAngle_up_upper) (rule normalizeAngle_down_upper)
  ultimately show ?thesis by blast
qed

subsection \<open>normalizeAngle with rounding\<close>

text \<open>
  A float below \<open>2^27\<close> in size is a multiple of a unit in the last place that divides 8,
  and so is its sum with a multiple of 8 such as \<open>360\<close> or \<open>-360\<close>; when the sum is no
  larger in size than the float, it is a float again and the rounded operation is exact.
\<close>

lemma f32_exact_step:
  assumes fa: "f32 a = a"
    and ea: "f32_exponent a \<le> 26"
    and le: "\<bar>a + 8 * of_int k\<bar> \<le> \<bar>a\<bar>"
  shows "f32 (a + 8 * of_int k) = a + 8 * of_int k"
proof -
  define b where "b = a + 8 * of_int k"
  define ua :: real where "ua = 2 powi (f32_exponent a - 23)"
  define ub :: real where "ub = 2 powi (f32_exponent b - 23)"
  define n where "n = round_half_even (a / ua)"
  have ub_pos: "0 < ub" by (simp add: ub_def)
  have a: "a = of_int n * ua"
    using fa by (simp add: f32_def Let_def ua_def n_def)
  have "(2::real) powi ((26 - f32_exponent a) + (f32_exponent a - 23))
          = 2 powi (26 - f32_exponent a) * 2 powi (f32_exponent a - 23)"
    by (rule power_int_add) simp
  moreover have "(26 - f32_exponent a) + (f32_exponent a - 23) = 3" by simp
  ultimately have "(2::real) powi 3 = 2 powi (26 - f32_exponent a) * 2 powi (f32_exponent a - 23)"
    by (simp only:)
  then have eight: "8 = (2::real) powi (26 - f32_exponent a) * ua"
    by (simp add: ua_def)
  have "(2::real) powi (26 - f32_exponent a) = 2 ^ nat (26 - f32_exponent a)"
    using ea by (simp add: power_int_nonneg_exp)
  also have "\<dots> = of_int (2 ^ nat (26 - f32_exponent a))" by simp
  finally have eight_int: "8 = of_int (2 ^ nat (26 - f32_exponent a)) * ua"
    using eight by simp
  define m where "m = n + 2 ^ nat (26 - f32_exponent a) * k"
  have b: "b = of_int m * ua"
  proof -
    have "b = of_int n * ua + (of_int (2 ^ nat (26 - f32_exponent a)) * ua) * of_int k"
      unfolding b_def using a eight_int by simp
    then show ?thesis by (simp add: m_def algebra_simps)
  qed
  have order: "f32_exponent b \<le> f32_exponent a"
    using le unfolding b_def by (rule f32_exponent_mono)
  have "(2::real) powi ((f32_exponent a - f32_exponent b) + (f32_exponent b - 23))
          = 2 powi (f32_exponent a - f32_exponent b) * 2 powi (f32_exponent b - 23)"
    by (rule power_int_add) simp
  moreover have "(f32_exponent a - f32_exponent b) + (f32_exponent b - 23) = f32_exponent a - 23"
    by simp
  ultimately have "ua = 2 powi (f32_exponent a - f32_exponent b) * ub"
    unfolding ua_def ub_def by (simp only:)
  also have "(2::real) powi (f32_exponent a - f32_exponent b) = 2 ^ nat (f32_exponent a - f32_exponent b)"
    using order by (simp add: power_int_nonneg_exp)
  finally have ua_ub: "ua = 2 ^ nat (f32_exponent a - f32_exponent b) * ub" .
  define d where "d = nat (f32_exponent a - f32_exponent b)"
  have "b = of_int m * (2 ^ d * ub)"
    using b ua_ub unfolding d_def by (simp only:)
  then have quotient: "b / ub = of_int (m * 2 ^ d)"
    using ub_pos by simp
  have "f32 b = of_int (round_half_even (b / ub)) * ub"
    by (simp add: f32_def Let_def ub_def)
  also have "\<dots> = of_int (m * 2 ^ d) * ub"
    unfolding quotient by (simp only: round_half_even_of_int)
  also have "\<dots> = b * 1"
    using quotient ub_pos by (simp add: field_simps)
  finally show ?thesis by (simp add: b_def)
qed

text \<open>
  So on floats below \<open>2^27\<close> in size the rounded loops compute what the exact ones do.
\<close>

lemma normalizeAngle_down_f32_exact:
  "f32 a = a \<Longrightarrow> \<bar>a\<bar> < 2 ^ 27 \<Longrightarrow>
     normalizeAngle_down_f32 a = Some (normalizeAngle_down a)
     \<and> f32 (normalizeAngle_down a) = normalizeAngle_down a
     \<and> \<bar>normalizeAngle_down a\<bar> < 2 ^ 27"
proof (induction a rule: normalizeAngle_down.induct)
  case (1 angle)
  show ?case
  proof (cases "angle > 180")
    case True
    have step: "angle - 360 = angle + 8 * of_int (- 45)" by simp
    have "\<bar>angle + 8 * of_int (- 45)\<bar> \<le> \<bar>angle\<bar>" using True by simp
    with 1(2) f32_exponent_below [OF 1(3)]
    have "f32 (angle + 8 * of_int (- 45)) = angle + 8 * of_int (- 45)"
      by (rule f32_exact_step)
    then have exact: "f32 (angle - 360) = angle - 360" by simp
    moreover have "\<bar>angle - 360\<bar> < 2 ^ 27" using True 1(3) by simp
    ultimately have ih: "normalizeAngle_down_f32 (angle - 360) = Some (normalizeAngle_down (angle - 360))
        \<and> f32 (normalizeAngle_down (angle - 360)) = normalizeAngle_down (angle - 360)
        \<and> \<bar>normalizeAngle_down (angle - 360)\<bar> < 2 ^ 27"
      using 1(1) True by simp
    have "normalizeAngle_down angle = normalizeAngle_down (angle - 360)"
      using True by (subst normalizeAngle_down.simps) simp
    moreover have "normalizeAngle_down_f32 angle = normalizeAngle_down_f32 (angle - 360)"
      using True exact by (subst normalizeAngle_down_f32.simps) simp
    ultimately show ?thesis using ih by simp
  next
    case False
    then have "normalizeAngle_down angle = angle"
      by (subst normalizeAngle_down.simps) simp
    moreover have "normalizeAngle_down_f32 angle = Some angle"
      using False by (subst normalizeAngle_down_f32.simps) simp
    ultimately show ?thesis using 1(2,3) by simp
  qed
qed

lemma normalizeAngle_up_f32_exact:
  "f32 a = a \<Longrightarrow> \<bar>a\<bar> < 2 ^ 27 \<Longrightarrow>
     normalizeAngle_up_f32 a = Some (normalizeAngle_up a)"
proof (induction a rule: normalizeAngle_up.induct)
  case (1 angle)
  show ?case
  proof (cases "angle < - 180")
    case True
    have "\<bar>angle + 8 * of_int 45\<bar> \<le> \<bar>angle\<bar>" using True by simp
    with 1(2) f32_exponent_below [OF 1(3)]
    have "f32 (angle + 8 * of_int 45) = angle + 8 * of_int 45"
      by (rule f32_exact_step)
    then have exact: "f32 (angle + 360) = angle + 360" by simp
    moreover have "\<bar>angle + 360\<bar> < 2 ^ 27" using True 1(3) by simp
    ultimately have ih: "normalizeAngle_up_f32 (angle + 360) = Some (normalizeAngle_up (angle + 360))"
      using 1(1) True by simp
    have "normalizeAngle_up angle = normalizeAngle_up (angle + 360)"
      using True by (subst normalizeAngle_up.simps) simp
    moreover have "normalizeAngle_up_f32 angle = normalizeAngle_up_f32 (angle + 360)"
      using True exact by (subst normalizeAngle_up_f32.simps) simp
    ultimately show ?thesis using ih by simp
  next
    case False
    then have "normalizeAngle_up angle = angle"
      by (subst normalizeAngle_up.simps) simp
    moreover have "normalizeAngle_up_f32 angle = Some angle"
      using False by (subst normalizeAngle_up_f32.simps) simp
    ultimately show ?thesis by simp
  qed
qed

lemma normalizeAngle_f32_exact:
  assumes "f32 a = a" and "\<bar>a\<bar> < 2 ^ 27"
  shows "normalizeAngle_f32 a = Some (normalizeAngle a)"
  using normalizeAngle_down_f32_exact [OF assms]
  by (simp add: normalizeAngle_f32_def normalizeAngle_def normalizeAngle_up_f32_exact)

text \<open>An angle already in the range is returned as it is, with no loop step.\<close>

lemma normalizeAngle_f32_id:
  "- 180 \<le> a \<Longrightarrow> a \<le> 180 \<Longrightarrow> normalizeAngle_f32 a = Some a"
  unfolding normalizeAngle_f32_def
  by (subst normalizeAngle_down_f32.simps) (simp add: normalizeAngle_up_f32.simps)

text \<open>
  At \<open>10^10\<close>, a float, the unit in the last place is 1024: subtracting 360 and rounding
  gives \<open>10^10\<close> back, and the first loop never leaves it.
\<close>

lemma f32_absorbs_360: "f32 9999999640 = 10000000000"
  by (simp add: f32_def f32_exponent_def f32_exponent_from.simps round_half_even_def Let_def)

lemma normalizeAngle_down_f32_stuck:
  assumes "normalizeAngle_down_f32 a = Some b"
  shows "a \<noteq> 10000000000"
proof (rule normalizeAngle_down_f32.raw_induct
    [where P = "\<lambda>angle result. angle \<noteq> 10000000000", OF _ assms])
  fix loop :: "real \<Rightarrow> real option" and angle result :: real
  assume ih: "\<And>c d. loop c = Some d \<Longrightarrow> c \<noteq> 10000000000"
    and step: "(if 180 < angle then loop (f32 (angle - 360)) else Some angle) = Some result"
  show "angle \<noteq> 10000000000"
  proof
    assume "angle = 10000000000"
    with step have "loop 10000000000 = Some result"
      by (simp add: f32_absorbs_360)
    with ih show False by blast
  qed
qed

text \<open>
  The claim C8 as written fails in single precision: for the float \<open>10^10\<close> the call does
  not return.
\<close>

theorem normalizeAngle_f32_no_return:
  "f32 10000000000 = 10000000000 \<and> normalizeAngle_f32 10000000000 = None"
proof -
  have "normalizeAngle_down_f32 10000000000 = None"
    using normalizeAngle_down_f32_stuck [of 10000000000] by (cases "normalizeAngle_down_f32 10000000000") auto
  moreover have "f32 10000000000 = 10000000000"
    by (simp add: f32_def f32_exponent_def f32_exponent_from.simps round_half_even_def Let_def)
  ultimately show ?thesis by (simp add: normalizeAngle_f32_def)
qed

text \<open>
  Claim C8, as the code has it. For every float \<open>a\<close> of size below \<open>2^27 = 134217728\<close>,
  \<open>normalizeAngle a\<close> returns, its value lies in the closed range from \<open>-180\<close> to \<open>180\<close>,
  and it differs from \<open>a\<close> by an integer multiple of 360.
\<close>

theorem normalizeAngle_f32_range_congruent:
  "f32 a = a \<and> \<bar>a\<bar> < 2 ^ 27 \<longrightarrow>
     (\<exists>r. normalizeAngle_f32 a = Some r \<and> - 180 \<le> r \<and> r \<le> 180
          \<and> (\<exists>k::int. r = a + 360 * real_of_int k))"
  using normalizeAngle_f32_exact [of a] normalizeAngle_range_congruent [of a] by auto

theorem normalizeAngle_f32_range_congruent_witness:
  "normalizeAngle_f32 400 = Some 40 \<and> normalizeAngle_f32 (- 400) = Some (- 40)"
proof -
  have a: "f32 400 = 400 \<and> \<bar>400::real\<bar> < 2 ^ 27"
    by (simp add: f32_def f32_exponent_def f32_exponent_from.simps round_half_even_def Let_def)
  have b: "f32 (- 400) = - 400 \<and> \<bar>- 400::real\<bar> < 2 ^ 27"
    by (simp add: f32_def f32_exponent_def f32_exponent_from.simps round_half_even_def Let_def)
  obtain r k where r: "normalizeAngle_f32 400 = Some r" "- 180 \<le> r" "r \<le> 180"
      "r = 400 + 360 * real_of_int k"
    using normalizeAngle_f32_range_congruent [of 400] a by blast
  obtain s l where s: "normalizeAngle_f32 (- 400) = Some s" "- 180 \<le> s" "s \<le> 180"
      "s = - 400 + 360 * real_of_int l"
    using normalizeAngle_f32_range_congruent [of "- 400"] b by blast
  from r(2-4) have "real_of_int (- 2) < real_of_int k" "real_of_int k < real_of_int 0"
    by simp_all
  then have "- 2 < k" "k < 0" by (simp_all only: of_int_less_iff)
  then have "k = - 1" by linarith
  with r have down: "normalizeAngle_f32 400 = Some 40" by simp
  from s(2-4) have "real_of_int 0 < real_of_int l" "real_of_int l < real_of_int 2"
    by simp_all
  then have "0 < l" "l < 2" by (simp_all only: of_int_less_iff)
  then have "l = 1" by linarith
  with s have "normalizeAngle_f32 (- 400) = Some (- 40)" by simp
  with down show ?thesis by simp
qed

subsection \<open>turnToAngle\<close>

text \<open>
  Claim C9. Turning a point about itself gives the point back, for every integer number
  of degrees: both offsets \<open>dx\<close> and \<open>dz\<close> are zero, and the vertical coordinate is copied.
\<close>

theorem turnToAngle_self: "turnToAngle p p degrees = p"
  by (simp add: turnToAngle_def)

section \<open>Rotation smoothing\<close>

lemma normalizeAngle_360: "normalizeAngle 360 = 0"
  unfolding normalizeAngle_def
  by (simp add: normalizeAngle_down.simps normalizeAngle_up.simps)

lemma normalizeAngle_225: "normalizeAngle 225 = - 135"
  unfolding normalizeAngle_def
  by (simp add: normalizeAngle_down.simps normalizeAngle_up.simps)

text \<open>
  Toward target 0 from a float \<open>c\<close> between 0 and 180, with \<open>dt \<ge> 2^-15\<close>: the difference
  \<open>- c\<close> needs no loop step, the rounded step is at least \<open>2^-16\<close>, and the call returns
  a float that is not below 0 and is at least \<open>2^-17\<close> below \<open>c\<close>, or 0.
\<close>

lemma updateRotation_f32_toward_zero:
  assumes c: "f32 c = c" and c0: "0 \<le> c" and c180: "c \<le> 180" and dt: "1 / 2 ^ 15 \<le> dt"
  shows "\<exists>r. updateRotation_f32 c 0 dt = Some r \<and> f32 r = r \<and> 0 \<le> r
            \<and> r \<le> max 0 (c - 1 / 2 ^ 17) \<and> (0 < c \<longrightarrow> r < c)"
proof -
  define s where "s = f32 (0.5 * dt)"
  have "f32 (- c) = - c" using c by (simp add: f32_minus)
  moreover have "normalizeAngle_f32 (- c) = Some (- c)"
    using c0 c180 by (intro normalizeAngle_f32_id) simp_all
  ultimately have diff: "normalizeAngle_f32 (f32 (- c)) = Some (- c)" by simp
  have s: "1 / 2 ^ 16 \<le> s"
    unfolding s_def using dt by (intro f32_ge_float f32_step_floor) simp
  show ?thesis
  proof (cases "c < f32 0.01")
    case True
    then have "updateRotation_f32 c 0 dt = Some 0"
      using c0 by (simp add: updateRotation_f32_def diff)
    with c0 show ?thesis by (simp add: f32_0)
  next
    case False
    then have pos: "0 < c" by (simp add: f32_hundredth)
    show ?thesis
    proof (cases "c < s")
      case True
      then have "updateRotation_f32 c 0 dt = normalizeAngle_f32 (f32 0)"
        using False pos by (simp add: updateRotation_f32_def diff Let_def s_def)
      then have "updateRotation_f32 c 0 dt = Some 0"
        by (simp add: f32_0 normalizeAngle_f32_id)
      with pos show ?thesis by (simp add: f32_0)
    next
      case far: False
      define w where "w = f32 (c + - s)"
      have w0: "0 \<le> w" unfolding w_def using far by (intro f32_nonneg) simp
      obtain p where p: "f32 p = p" "p = c - 2 powi (f32_exponent c - 23)"
        using c pos by (rule float_pred)
      have "2 powi (f32_exponent c - 23) \<le> (1::real) / 2 ^ 16"
        using c0 c180 by (intro ulp_below_256) simp
      with s p(2) have "c + - s \<le> p" by simp
      with p(1) have "w \<le> p" unfolding w_def by (rule f32_le_float)
      moreover have "0 < (2::real) powi (f32_exponent c - 23)" by simp
      ultimately have less: "w < c" using p(2) by linarith
      have "\<bar>c + - s\<bar> \<le> 180" using far s c180 by simp
      then have "2 powi (f32_exponent (c + - s) - 23) \<le> (1::real) / 2 ^ 16"
        by (rule ulp_below_256)
      then have "2 powi (f32_exponent (c + - s) - 23) \<le> (1::real) / 65536"
        by simp
      with f32_error [of "c + - s"] have "\<bar>w - (c + - s)\<bar> \<le> 1 / 131072"
        unfolding w_def by linarith
      moreover have "1 / 65536 \<le> s" using s by simp
      ultimately have "w \<le> c - 1 / 131072" by linarith
      then have drop: "w \<le> c - 1 / 2 ^ 17" by simp
      have float: "f32 w = w" unfolding w_def by (rule f32_idem)
      have "updateRotation_f32 c 0 dt = normalizeAngle_f32 w"
        using False far pos by (simp add: updateRotation_f32_def diff Let_def s_def w_def)
      also have "\<dots> = Some w"
        using w0 less c180 by (intro normalizeAngle_f32_id) simp_all
      finally show ?thesis using float w0 drop less by simp
    qed
  qed
qed

lemma updateRotation_f32_calls_bound:
  assumes dt: "1 / 2 ^ 15 \<le> dt"
  shows "f32 c = c \<Longrightarrow> 0 \<le> c \<Longrightarrow> c \<le> 180 \<Longrightarrow>
           \<exists>v. updateRotation_f32_calls n c 0 dt = Some v \<and> 0 \<le> v
               \<and> v \<le> max 0 (c - real n / 2 ^ 17)"
proof (induction n arbitrary: c)
  case 0
  then show ?case by simp
next
  case (Suc n)
  obtain r where r: "updateRotation_f32 c 0 dt = Some r" "f32 r = r" "0 \<le> r"
      "r \<le> max 0 (c - 1 / 2 ^ 17)"
    using updateRotation_f32_toward_zero [OF Suc.prems dt] by blast
  from r(3,4) Suc.prems have r180: "r \<le> 180" by simp
  obtain v where v: "updateRotation_f32_calls n r 0 dt = Some v" "0 \<le> v"
      "v \<le> max 0 (r - real n / 2 ^ 17)"
    using Suc.IH [OF r(2,3) r180] by blast
  have "max 0 (r - real n / 2 ^ 17) \<le> max 0 (c - real (Suc n) / 2 ^ 17)"
    using r(4) by (auto simp: max_def field_simps split: if_splits)
  with v(3) have "v \<le> max 0 (c - real (Suc n) / 2 ^ 17)" by (rule order_trans)
  with v(1,2) r(1) show ?case by simp
qed

lemma updateRotation_f32_calls_reach_0:
  assumes dt: "1 / 2 ^ 15 \<le> dt" and n: "23592960 \<le> n"
  shows "updateRotation_f32_calls n 180 0 dt = Some 0"
proof -
  obtain v where v: "updateRotation_f32_calls n 180 0 dt = Some v" "0 \<le> v"
      "v \<le> max 0 (180 - real n / 2 ^ 17)"
    using updateRotation_f32_calls_bound [OF dt f32_180, of n] by auto
  have "23592960 \<le> real n" using n by simp
  then have "180 - real n / 2 ^ 17 \<le> 0" by simp
  with v(2,3) have "v = 0" by simp
  with v(1) show ?thesis by simp
qed

lemma updateRotation_f32_big_step:
  assumes "180 \<le> 0.5 * dt"
  shows "updateRotation_f32 180 0 dt = Some 0"
proof -
  have "f32 (- 180) = - 180" using f32_180 by (simp add: f32_minus)
  moreover have "normalizeAngle_f32 (- 180) = Some (- 180)"
    by (intro normalizeAngle_f32_id) simp_all
  ultimately have diff: "normalizeAngle_f32 (f32 (- 180)) = Some (- 180)" by simp
  have "180 \<le> f32 (0.5 * dt)"
    using assms by (intro f32_ge_float f32_180)
  then have "updateRotation_f32 180 0 dt = normalizeAngle_f32 (f32 0)"
    by (auto simp: updateRotation_f32_def diff Let_def f32_hundredth)
  then show ?thesis by (simp add: f32_0 normalizeAngle_f32_id)
qed

text \<open>
  The claim C1 as written admits \<open>dt = 0\<close>, where \<open>turnSpeed * dt = 0 < 180\<close>: the turn
  step is zero and the call returns 180 again, with rounding and without.
\<close>

theorem updateRotation_dt_zero_stays:
  "0.5 * (0::real) < 180 \<and> updateRotation_f32 180 0 0 = Some 180
   \<and> updateRotation 180 0 0 = 180"
proof -
  have "f32 (- 180) = - 180" using f32_180 by (simp add: f32_minus)
  moreover have "normalizeAngle_f32 (- 180) = Some (- 180)"
    by (intro normalizeAngle_f32_id) simp_all
  ultimately have diff: "normalizeAngle_f32 (f32 (- 180)) = Some (- 180)" by simp
  have "updateRotation_f32 180 0 0 = normalizeAngle_f32 (f32 180)"
    by (simp add: updateRotation_f32_def diff Let_def f32_hundredth f32_0)
  then have "updateRotation_f32 180 0 0 = Some 180"
    by (simp add: f32_180 normalizeAngle_f32_id)
  moreover have "updateRotation 180 0 0 = 180"
    by (simp add: updateRotation_def normalizeAngle_id f32_hundredth)
  ultimately show ?thesis by simp
qed

text \<open>
  A positive step can be lost as well. With \<open>dt\<close> the float nearest to \<open>10^-5\<close> the step
  is less than half a unit in the last place of 180, and line 63 stores 180 again.
\<close>

lemma updateRotation_f32_small_step_absorbed:
  "updateRotation_f32 180 0 (f32 (1 / 100000)) = Some 180"
proof -
  have "f32 (- 180) = - 180" using f32_180 by (simp add: f32_minus)
  moreover have "normalizeAngle_f32 (- 180) = Some (- 180)"
    by (intro normalizeAngle_f32_id) simp_all
  ultimately have diff: "normalizeAngle_f32 (f32 (- 180)) = Some (- 180)" by simp
  have step: "f32 (f32 (1 / 100000) / 2) = 5497558 / 1099511627776"
    by (simp add: f32_def f32_exponent_def f32_exponent_from.simps round_half_even_def Let_def)
  have "f32 (180 + - (5497558 / 1099511627776)) = 180"
    by (simp add: f32_def f32_exponent_def f32_exponent_from.simps round_half_even_def Let_def)
  then have "updateRotation_f32 180 0 (f32 (1 / 100000)) = normalizeAngle_f32 180"
    by (simp add: updateRotation_f32_def diff Let_def f32_hundredth step)
  then show ?thesis by (simp add: normalizeAngle_f32_id)
qed

text \<open>
  Claim C1, as the code has it, in single precision. The time step is bounded below:
  \<open>dt \<ge> 2^-15\<close>, a step of at least \<open>2^-16\<close>, one unit in the last place of 180. For
  target heading 0, such a \<open>dt\<close> with \<open>0.5 * dt < 180\<close> and current rotation 180 (or any
  float reached from it, \<open>0 < c \<le> 180\<close>), a call returns a rotation that is strictly
  smaller and not below 0. Repeated with the same \<open>dt\<close>, the calls reach exactly 0 after
  some number of them and stay there, and a single call from 180 does so when
  \<open>0.5 * dt \<ge> 180\<close>.
\<close>

theorem updateRotation_f32_180_to_0:
  assumes "1 / 2 ^ 15 \<le> dt"
  shows "(\<forall>c. f32 c = c \<and> 0 < c \<and> c \<le> 180 \<and> 0.5 * dt < 180 \<longrightarrow>
            (\<exists>r. updateRotation_f32 c 0 dt = Some r \<and> 0 \<le> r \<and> r < c))
         \<and> (\<exists>N. \<forall>n. N \<le> n \<longrightarrow> updateRotation_f32_calls n 180 0 dt = Some 0)
         \<and> (180 \<le> 0.5 * dt \<longrightarrow> updateRotation_f32 180 0 dt = Some 0)"
proof (intro conjI allI impI)
  fix c :: real
  assume c: "f32 c = c \<and> 0 < c \<and> c \<le> 180 \<and> 0.5 * dt < 180"
  then have "f32 c = c" "0 \<le> c" "c \<le> 180" by simp_all
  from updateRotation_f32_toward_zero [OF this assms] c
  show "\<exists>r. updateRotation_f32 c 0 dt = Some r \<and> 0 \<le> r \<and> r < c" by blast
next
  show "\<exists>N. \<forall>n. N \<le> n \<longrightarrow> updateRotation_f32_calls n 180 0 dt = Some 0"
    using updateRotation_f32_calls_reach_0 [OF assms] by blast
next
  assume "180 \<le> 0.5 * dt"
  then show "updateRotation_f32 180 0 dt = Some 0" by (rule updateRotation_f32_big_step)
qed

theorem updateRotation_f32_180_to_0_witness:
  "(\<exists>r. updateRotation_f32 180 0 90 = Some r \<and> 0 \<le> r \<and> r < 180)
   \<and> (\<exists>N. updateRotation_f32_calls N 180 0 90 = Some 0)
   \<and> updateRotation_f32 180 0 360 = Some 0"
proof -
  have slow: "1 / 2 ^ 15 \<le> (90::real)" and fast: "1 / 2 ^ 15 \<le> (360::real)" by simp_all
  note calls = updateRotation_f32_180_to_0 [OF slow]
  from calls have "f32 180 = 180 \<and> 0 < (180::real) \<and> (180::real) \<le> 180 \<and> 0.5 * (90::real) < 180
      \<longrightarrow> (\<exists>r. updateRotation_f32 180 0 90 = Some r \<and> 0 \<le> r \<and> r < 180)"
    by blast
  then have one: "\<exists>r. updateRotation_f32 180 0 90 = Some r \<and> 0 \<le> r \<and> r < 180"
    by (simp add: f32_180)
  from calls obtain N where "\<forall>n. N \<le> n \<longrightarrow> updateRotation_f32_calls n 180 0 90 = Some 0"
    by blast
  then have "updateRotation_f32_calls N 180 0 90 = Some 0" by simp
  then have many: "\<exists>N. updateRotation_f32_calls N 180 0 90 = Some 0" ..
  from updateRotation_f32_180_to_0 [OF fast]
  have "180 \<le> 0.5 * (360::real) \<longrightarrow> updateRotation_f32 180 0 360 = Some 0"
    by blast
  then have big: "updateRotation_f32 180 0 360 = Some 0" by simp
  from one many big show ?thesis by blast
qed

text \<open>
  Claim C2 at a concrete input. From the initial rotation 180 with target heading 225, a
  first call turns to 225 and normalises it to \<open>-135\<close>. In the second call the
  difference is \<open>normalizeAngle 360 = 0\<close>, so line 51 stores the target 225 and line 52
  returns before the normalisation of line 67: the result is above 180.
\<close>

theorem updateRotation_snap_leaves_range:
  "updateRotation 180 225 1000 = - 135
   \<and> updateRotation (- 135) 225 1000 = 225
   \<and> \<not> updateRotation (- 135) 225 1000 \<le> 180"
  by (simp add: updateRotation_def normalizeAngle_360 normalizeAngle_225 normalizeAngle_id
        f32_hundredth)

text \<open>
  With every operation rounded the two calls return the same: all the values are small
  integers.
\<close>

lemma f32_45: "f32 45 = 45"
  using f32_of_int [of 45] by simp

lemma f32_225: "f32 225 = 225"
  using f32_of_int [of 225] by simp

lemma f32_360: "f32 360 = 360"
  using f32_of_int [of 360] by simp

lemma f32_500: "f32 500 = 500"
  using f32_of_int [of 500] by simp

lemma updateRotation_f32_snap_leaves_range:
  "updateRotation_f32 180 225 1000 = Some (- 135)
   \<and> updateRotation_f32 (- 135) 225 1000 = Some 225"
proof -
  have n45: "normalizeAngle_f32 45 = Some 45"
    by (intro normalizeAngle_f32_id) simp_all
  have n225: "normalizeAngle_f32 225 = Some (- 135)"
    using normalizeAngle_f32_exact [of 225] by (simp add: f32_225 normalizeAngle_225)
  have n360: "normalizeAngle_f32 360 = Some 0"
    using normalizeAngle_f32_exact [of 360] by (simp add: f32_360 normalizeAngle_360)
  have "updateRotation_f32 180 225 1000 = Some (- 135)"
    by (simp add: updateRotation_f32_def Let_def f32_45 n45 f32_hundredth f32_500 f32_225 n225)
  moreover have "updateRotation_f32 (- 135) 225 1000 = Some 225"
    by (simp add: updateRotation_f32_def Let_def f32_360 n360 f32_hundredth)
  ultimately show ?thesis by simp
qed

section \<open>The frame loop\<close>

lemma frame_jump:
  "jump (frame inp s) =
     jumpDecay (jumpTrigger (spacePressed inp) (currentAddedHeight s) (jump s)) (milliseconds inp)"
  by (simp add: frame_def Let_def)

lemma frame_currentAddedHeight:
  "currentAddedHeight (frame inp s) =
     integrateHeight (currentAddedHeight s)
       (jumpTrigger (spacePressed inp) (currentAddedHeight s) (jump s)) (gravity s) (milliseconds inp)"
  by (simp add: frame_def Let_def)

lemma integrateHeight_nonneg: "0 \<le> integrateHeight height j g ms"
  by (simp add: integrateHeight_def Let_def)

lemma frame_playerPosition_y: "y (playerPosition (frame inp s)) = y (playerPosition s)"
  by (simp add: frame_def Let_def movePlayer_def)

lemma run_playerPosition_y: "y (playerPosition (run s inps)) = y (playerPosition s)"
  by (induction inps arbitrary: s) (simp_all add: frame_playerPosition_y)

lemma frame_camera_y: "y (position (camera (frame inp s))) = y (position (camera s))"
  by (simp add: frame_def Let_def followCamera_def)

lemma run_camera_y: "y (position (camera (run s inps))) = y (position (camera s))"
  by (induction inps arbitrary: s) (simp_all add: frame_camera_y)

lemma run_currentAddedHeight_nonneg:
  "0 \<le> currentAddedHeight s \<Longrightarrow> 0 \<le> currentAddedHeight (run s inps)"
  by (induction inps arbitrary: s) (simp_all add: frame_currentAddedHeight integrateHeight_nonneg)

subsection \<open>Jump and gravity\<close>

text \<open>
  The subtrahend \<^verbatim>\<open>0.01f * milliseconds\<close> is not negative, and from one millisecond on
  it is at least \<^verbatim>\<open>0.01f\<close>, far more than a unit in the last place of a \<^verbatim>\<open>jump\<close> up
  to 3.
\<close>

lemma jumpDecay_f32_subtrahend:
  assumes "0 \<le> ms"
  shows "0 \<le> f32 (f32 0.01 * f32 (real_of_int ms))"
    and "1 \<le> ms \<Longrightarrow> 5368709 / 536870912 \<le> f32 (f32 0.01 * f32 (real_of_int ms))"
proof -
  have "0 \<le> f32 (real_of_int ms)" using assms by (intro f32_nonneg) simp
  then show "0 \<le> f32 (f32 0.01 * f32 (real_of_int ms))"
    by (intro f32_nonneg) (simp add: f32_hundredth)
next
  assume "1 \<le> ms"
  then have "1 \<le> f32 (real_of_int ms)"
    by (intro f32_ge_float f32_1) simp
  then have "5368709 / 536870912 \<le> f32 0.01 * f32 (real_of_int ms)"
    by (simp add: f32_hundredth)
  then show "5368709 / 536870912 \<le> f32 (f32 0.01 * f32 (real_of_int ms))"
    by (intro f32_ge_float f32_hundredth_float)
qed

lemma jumpDecay_f32_le:
  assumes "f32 j = j" and "0 < j" and "0 \<le> ms"
  shows "jumpDecay_f32 j ms \<le> j"
proof -
  have "j - f32 (f32 0.01 * f32 (real_of_int ms)) \<le> j"
    using jumpDecay_f32_subtrahend(1) [OF assms(3)] by simp
  with assms(1) have "f32 (j - f32 (f32 0.01 * f32 (real_of_int ms))) \<le> j"
    by (rule f32_le_float)
  with assms(2) show ?thesis by (simp add: jumpDecay_f32_def)
qed

lemma jumpDecay_f32_less:
  assumes j: "f32 j = j" and pos: "0 < j" and top: "j \<le> 3" and ms: "1 \<le> ms"
  shows "jumpDecay_f32 j ms < j"
proof -
  obtain p where p: "f32 p = p" "p = j - 2 powi (f32_exponent j - 23)"
    using j pos by (rule float_pred)
  have "\<bar>j\<bar> < 2 powi 2" using pos top by simp
  then have "f32_exponent j < 2" by (rule f32_exponent_less) simp
  then have "(2::real) powi (f32_exponent j - 23) \<le> 2 powi (- 22)"
    by (intro pow2_mono) simp
  also have "\<dots> \<le> 5368709 / 536870912" by simp
  also have "\<dots> \<le> f32 (f32 0.01 * f32 (real_of_int ms))"
    using ms by (intro jumpDecay_f32_subtrahend(2)) simp_all
  finally have "j - f32 (f32 0.01 * f32 (real_of_int ms)) \<le> p"
    using p(2) by simp
  with p(1) have "f32 (j - f32 (f32 0.01 * f32 (real_of_int ms))) \<le> p"
    by (rule f32_le_float)
  moreover have "p < j" using p(2) by simp
  ultimately show ?thesis using pos by (simp add: jumpDecay_f32_def)
qed

lemma jumpDecay_f32_nonneg:
  assumes j: "f32 j = j" and pos: "0 < j" and top: "j \<le> 3" and ms: "0 \<le> ms"
    and short: "0.01 * real_of_int ms \<le> j"
  shows "0 \<le> jumpDecay_f32 j ms"
proof -
  from short top have "real_of_int ms \<le> 300" by simp
  then have "ms \<le> 300" by simp
  with ms have "\<bar>ms\<bar> < 2 ^ 24" by simp
  then have exact: "f32 (real_of_int ms) = real_of_int ms" by (rule f32_of_int)
  have "f32 0.01 * real_of_int ms \<le> 0.01 * real_of_int ms"
    using ms by (intro mult_right_mono) (simp_all add: f32_hundredth)
  with short have "f32 0.01 * f32 (real_of_int ms) \<le> j" by (simp add: exact)
  with j have "f32 (f32 0.01 * f32 (real_of_int ms)) \<le> j" by (rule f32_le_float)
  then have "0 \<le> f32 (j - f32 (f32 0.01 * f32 (real_of_int ms)))"
    by (intro f32_nonneg) simp
  with pos show ?thesis by (simp add: jumpDecay_f32_def)
qed

text \<open>
  The claim C4 as written fails: the decay subtracts \<^verbatim>\<open>0.01f * milliseconds\<close> whenever
  \<^verbatim>\<open>jump\<close> is positive, whatever its size. A frame of one second takes the launch value
  3 to \<open>-7\<close>, with rounding (\<^verbatim>\<open>0.01f * 1000\<close> rounds to 10) and without.
\<close>

theorem jumpDecay_overshoot:
  "f32 3 = 3 \<and> (0::real) < 3 \<and> (0::int) \<le> 1000
   \<and> jumpDecay_f32 3 1000 = - 7 \<and> jumpDecay 3 1000 = - 7"
  by (simp add: jumpDecay_f32_def jumpDecay_def f32_def f32_exponent_def f32_exponent_from.simps
        round_half_even_def Let_def)

text \<open>
  Claim C4, as the code has it, first with every operation rounded and \<open>j\<close> a float, then
  in the exact reading that \<open>frame\<close> uses. The decay never raises a positive \<^verbatim>\<open>jump\<close>. For
  the values \<^verbatim>\<open>jump\<close> can hold, \<open>0 < j \<le> 3\<close>, a frame of at least one millisecond lowers
  it strictly, and the result is not negative when \<open>0.01 * ms \<le> j\<close>; a longer frame can
  take it below zero, as above. A \<^verbatim>\<open>jump\<close> that is zero or negative is left as it is, so
  the decay stops after at most one step below zero.
\<close>

theorem jumpDecay_bounded_frame:
  "(f32 j = j \<longrightarrow>
      (0 < j \<and> 0 \<le> ms \<longrightarrow> jumpDecay_f32 j ms \<le> j)
      \<and> (0 < j \<and> j \<le> 3 \<and> 1 \<le> ms \<longrightarrow> jumpDecay_f32 j ms < j)
      \<and> (0 < j \<and> j \<le> 3 \<and> 0 \<le> ms \<and> 0.01 * real_of_int ms \<le> j \<longrightarrow> 0 \<le> jumpDecay_f32 j ms)
      \<and> (j \<le> 0 \<longrightarrow> jumpDecay_f32 j ms = j))
   \<and> (0 < j \<and> 0 \<le> ms \<longrightarrow> jumpDecay j ms \<le> j)
   \<and> (0 < j \<and> j \<le> 3 \<and> 1 \<le> ms \<longrightarrow> jumpDecay j ms < j)
   \<and> (0 < j \<and> j \<le> 3 \<and> 0 \<le> ms \<and> 0.01 * real_of_int ms \<le> j \<longrightarrow> 0 \<le> jumpDecay j ms)
   \<and> (j \<le> 0 \<longrightarrow> jumpDecay j ms = j)"
proof -
  have "jumpDecay_f32 j ms = j" if "j \<le> 0"
    using that by (simp add: jumpDecay_f32_def)
  then have rounded: "f32 j = j \<longrightarrow>
      (0 < j \<and> 0 \<le> ms \<longrightarrow> jumpDecay_f32 j ms \<le> j)
      \<and> (0 < j \<and> j \<le> 3 \<and> 1 \<le> ms \<longrightarrow> jumpDecay_f32 j ms < j)
      \<and> (0 < j \<and> j \<le> 3 \<and> 0 \<le> ms \<and> 0.01 * real_of_int ms \<le> j \<longrightarrow> 0 \<le> jumpDecay_f32 j ms)
      \<and> (j \<le> 0 \<longrightarrow> jumpDecay_f32 j ms = j)"
    using jumpDecay_f32_le [of j ms] jumpDecay_f32_less [of j ms] jumpDecay_f32_nonneg [of j ms]
    by blast
  have exact: "(0 < j \<and> 0 \<le> ms \<longrightarrow> jumpDecay j ms \<le> j)
   \<and> (0 < j \<and> j \<le> 3 \<and> 1 \<le> ms \<longrightarrow> jumpDecay j ms < j)
   \<and> (0 < j \<and> j \<le> 3 \<and> 0 \<le> ms \<and> 0.01 * real_of_int ms \<le> j \<longrightarrow> 0 \<le> jumpDecay j ms)
   \<and> (j \<le> 0 \<longrightarrow> jumpDecay j ms = j)"
    by (simp add: jumpDecay_def)
  from rounded exact show ?thesis by blast
qed

theorem jumpDecay_bounded_frame_witness:
  "jumpDecay_f32 3 100 \<le> 3 \<and> jumpDecay_f32 3 100 < 3 \<and> 0 \<le> jumpDecay_f32 3 100
   \<and> jumpDecay_f32 (- 7) 16 = - 7
   \<and> jumpDecay 3 100 \<le> 3 \<and> jumpDecay 3 100 < 3 \<and> 0 \<le> jumpDecay 3 100
   \<and> jumpDecay (- 7) 16 = - 7"
proof -
  have three: "f32 3 = 3" using f32_of_int [of 3] by simp
  have seven: "f32 (- 7) = - 7" using f32_of_int [of "- 7"] by simp
  from jumpDecay_bounded_frame [of 3 100] three
  have up: "jumpDecay_f32 3 100 \<le> 3 \<and> jumpDecay_f32 3 100 < 3 \<and> 0 \<le> jumpDecay_f32 3 100
      \<and> jumpDecay 3 100 \<le> 3 \<and> jumpDecay 3 100 < 3 \<and> 0 \<le> jumpDecay 3 100"
    by simp
  from jumpDecay_bounded_frame [of "- 7" 16] seven
  have "jumpDecay_f32 (- 7) 16 = - 7 \<and> jumpDecay (- 7) 16 = - 7"
    by simp
  with up show ?thesis by blast
qed

text \<open>
  Claim C5. With the space bar pressed, the trigger stores 3 when the height offset is 0
  and keeps \<^verbatim>\<open>jump\<close> when it is not; without the press it keeps \<^verbatim>\<open>jump\<close>. The frame
  applies the decay to the value the trigger leaves. After the integration of a frame the
  height offset is at least 0, it is exactly 0 whenever the integrated value is negative,
  and it is at least 0 after every number of frames from the initial state.
\<close>

theorem jump_trigger_and_clamp:
  "(height = 0 \<longrightarrow> jumpTrigger True height j = 3)
   \<and> (height \<noteq> 0 \<longrightarrow> jumpTrigger True height j = j)
   \<and> jumpTrigger False height j = j
   \<and> jump (frame inp s) =
       jumpDecay (jumpTrigger (spacePressed inp) (currentAddedHeight s) (jump s)) (milliseconds inp)
   \<and> 0 \<le> currentAddedHeight (frame inp s)
   \<and> (currentAddedHeight s
        + (0.01 * jumpTrigger (spacePressed inp) (currentAddedHeight s) (jump s) * real_of_int (milliseconds inp)
           - 0.01 * gravity s * real_of_int (milliseconds inp)) < 0
       \<longrightarrow> currentAddedHeight (frame inp s) = 0)
   \<and> 0 \<le> currentAddedHeight (run initial_state inps)"
proof -
  have "0 \<le> currentAddedHeight (run initial_state inps)"
    by (rule run_currentAddedHeight_nonneg) (simp add: initial_state_def)
  moreover have "0 \<le> currentAddedHeight (frame inp s)"
    by (simp add: frame_currentAddedHeight integrateHeight_nonneg)
  moreover have "currentAddedHeight s
        + (0.01 * jumpTrigger (spacePressed inp) (currentAddedHeight s) (jump s) * real_of_int (milliseconds inp)
           - 0.01 * gravity s * real_of_int (milliseconds inp)) < 0
       \<longrightarrow> currentAddedHeight (frame inp s) = 0"
    by (simp add: frame_currentAddedHeight integrateHeight_def Let_def)
  ultimately show ?thesis
    by (simp add: frame_jump jumpTrigger_def)
qed

theorem jump_trigger_and_clamp_witness:
  "jumpTrigger True 0 0 = 3
   \<and> jumpTrigger True 1.5 2 = 2
   \<and> currentAddedHeight (frame \<lparr> keyW = False, keyD = False, keyS = False, keyA = False,
        spacePressed = False, milliseconds = 16 \<rparr> initial_state) = 0"
proof -
  let ?inp = "\<lparr> keyW = False, keyD = False, keyS = False, keyA = False,
        spacePressed = False, milliseconds = 16 \<rparr>"
  from jump_trigger_and_clamp [of 0 0 ?inp initial_state "[]"]
  have grounded: "jumpTrigger True 0 0 = 3"
    and landed: "currentAddedHeight (frame ?inp initial_state) = 0"
    by (simp_all add: initial_state_def jumpTrigger_def)
  from jump_trigger_and_clamp [of "1.5" 2 ?inp initial_state "[]"]
  have airborne: "jumpTrigger True 1.5 2 = 2"
    by simp
  from grounded airborne landed show ?thesis by blast
qed

subsection \<open>Camera\<close>

text \<open>
  The claim C6 as written fails in its third part: the camera's height is not the
  character's. After one frame from the initial state the camera is at height 25 and the
  character at height 2.
\<close>

theorem camera_y_not_player_y:
  "y (position (camera (frame \<lparr> keyW = False, keyD = False, keyS = False, keyA = False,
        spacePressed = False, milliseconds = 16 \<rparr> initial_state)))
   \<noteq> y (playerPosition (frame \<lparr> keyW = False, keyD = False, keyS = False, keyA = False,
        spacePressed = False, milliseconds = 16 \<rparr> initial_state))"
  by (simp add: frame_camera_y frame_playerPosition_y) (simp add: initial_state_def)

text \<open>
  Claim C6, as the code has it. After a frame the camera's X is the character's X, its Z
  is the character's Z plus 15 and its target is the character's position. Its Y is not
  written by the frame: it keeps the value it had, which is 25 for the whole run, while
  the character's Y is 2.
\<close>

theorem camera_follows:
  "x (position (camera (frame inp s))) = x (playerPosition (frame inp s))
   \<and> z (position (camera (frame inp s))) = z (playerPosition (frame inp s)) + 15
   \<and> target (camera (frame inp s)) = playerPosition (frame inp s)
   \<and> y (position (camera (frame inp s))) = y (position (camera s))
   \<and> y (position (camera (run initial_state inps))) = 25
   \<and> y (playerPosition (run initial_state inps)) = 2"
proof -
  have "y (position (camera (run initial_state inps))) = 25"
    by (simp add: run_camera_y) (simp add: initial_state_def)
  moreover have "y (playerPosition (run initial_state inps)) = 2"
    by (simp add: run_playerPosition_y) (simp add: initial_state_def)
  moreover have "y (position (camera (frame inp s))) = y (position (camera s))"
    by (rule frame_camera_y)
  ultimately show ?thesis
    by (simp add: frame_def Let_def followCamera_def)
qed

subsection \<open>Translation\<close>










subsection \<open>The character's height\<close>

text \<open>
  Claim C10. No frame changes the Y coordinate of \<^verbatim>\<open>playerPosition\<close>: it is 2 after
  every number of frames from the initial state, for every input and elapsed time. The
  jump enters only the points handed to \<^verbatim>\<open>DrawCapsule\<close>, as the height offset added to
  that Y.
\<close>

theorem playerPosition_y_constant:
  "y (playerPosition (frame inp s)) = y (playerPosition s)
   \<and> y (playerPosition (run initial_state inps)) = 2
   \<and> y (capsuleStart s) = y (playerPosition s) + currentAddedHeight s
   \<and> y (capsuleEnd s) = y (playerPosition s) + 1.5 + currentAddedHeight s"
proof -
  have "y (playerPosition (run initial_state inps)) = 2"
    by (simp add: run_playerPosition_y) (simp add: initial_state_def)
  then show ?thesis
    by (simp add: frame_playerPosition_y capsuleStart_def capsuleEnd_def)
qed


end
